theory Spec2Isabelle
  imports Complex_Main "HOL-Library.List_Lexorder" "HOL-Library.Char_ord"
begin

section \<open>Python values used by the indexer and the query engine\<close>

text \<open>
  Python strings are modelled as lists of \<^typ>\<open>char\<close>, one \<^typ>\<open>char\<close> per code point,
  for the code points 0 to 255. The character classes below are Python 3's on that range:
  \<open>str.isspace\<close> (which \<open>str.split()\<close>, \<open>str.strip()\<close> and the regular expression
  class \<open>\s\<close> use), the class \<open>\w\<close> (alphanumeric or underscore) and \<open>str.lower\<close>.
  Text with code points above 255 is outside the model: there \<open>str.lower\<close> follows the
  full Unicode case mapping, which can lengthen a string, and every statement below about
  characters is a statement about text within the range.
\<close>

definition is_space :: "char \<Rightarrow> bool" where
  "is_space c =
     (let n = (of_char c :: nat)
      in (9 \<le> n \<and> n \<le> 13) \<or> (28 \<le> n \<and> n \<le> 32) \<or> n = 133 \<or> n = 160)"

definition is_alnum :: "char \<Rightarrow> bool" where
  "is_alnum c =
     (let n = (of_char c :: nat)
      in (48 \<le> n \<and> n \<le> 57) \<or> (65 \<le> n \<and> n \<le> 90) \<or> (97 \<le> n \<and> n \<le> 122) \<or>
         n = 170 \<or> n = 178 \<or> n = 179 \<or> n = 181 \<or> n = 185 \<or> n = 186 \<or>
         (188 \<le> n \<and> n \<le> 190) \<or> (192 \<le> n \<and> n \<le> 214) \<or>
         (216 \<le> n \<and> n \<le> 246) \<or> (248 \<le> n \<and> n \<le> 255))"

definition is_word :: "char \<Rightarrow> bool" where
  "is_word c = (is_alnum c \<or> c = CHR ''_'')"

definition is_upper :: "char \<Rightarrow> bool" where
  "is_upper c =
     (let n = (of_char c :: nat)
      in (65 \<le> n \<and> n \<le> 90) \<or> (192 \<le> n \<and> n \<le> 214) \<or> (216 \<le> n \<and> n \<le> 222))"

definition lower_char :: "char \<Rightarrow> char" where
  "lower_char c = (if is_upper c then char_of ((of_char c :: nat) + 32) else c)"

definition py_lower :: "string \<Rightarrow> string" where
  "py_lower s = map lower_char s"

text \<open>\<open>s.strip()\<close>: whitespace removed at both ends.\<close>

definition py_strip :: "string \<Rightarrow> string" where
  "py_strip s = rev (dropWhile is_space (rev (dropWhile is_space s)))"

text \<open>
  \<open>s.split()\<close>: the maximal runs of non-whitespace characters, in order. The first
  argument is the run read so far.
\<close>

fun split_ws :: "string \<Rightarrow> string \<Rightarrow> string list" where
  "split_ws cur [] = (if cur = [] then [] else [cur])"
| "split_ws cur (c # cs) =
     (if is_space c then (if cur = [] then split_ws [] cs else cur # split_ws [] cs)
      else split_ws (cur @ [c]) cs)"

definition py_split :: "string \<Rightarrow> string list" where
  "py_split s = split_ws [] s"

text \<open>
  A slice \<open>xs[a:b]\<close> with Python's rules: a negative bound counts from the end, and both
  bounds are clamped to the list.
\<close>

definition slice_bound :: "nat \<Rightarrow> int \<Rightarrow> nat" where
  "slice_bound n i = (if i < 0 then nat (int n + i) else min n (nat i))"

definition py_slice :: "int \<Rightarrow> int \<Rightarrow> 'a list \<Rightarrow> 'a list" where
  "py_slice a b xs =
     (let lo = slice_bound (length xs) a; hi = slice_bound (length xs) b
      in take (hi - lo) (drop lo xs))"

text \<open>
  The ways a run ends without a result: \<open>sys.exit()\<close> after one of the printed messages,
  or an exception that nothing catches.
\<close>

datatype exit_message =
    InvalidPhraseDelimiter
  | DocumentNeedsZone
  | EmptyZoneContent
  | DuplicateDocIDs
  | NoDocID
  | IndexFileNotFound
  | DocIndexFileNotFound

datatype py_error =
    SystemExit exit_message
  | IndexError
  | KeyError
  | ValueError
  | TypeError
  | AttributeError
  | ZeroDivisionError

section \<open>query.py: parseQuery\<close>

text \<open>
  The local variables of \<open>parseQuery\<close>. The loop body is \<open>parse_term\<close>; \<open>term[0]\<close> on
  an empty string raises IndexError, and the lone delimiter exits after the phrase flag
  has been toggled.
\<close>

record parser =
  "keywords" :: "string list"
  phrases :: "string list"
  phrase :: string
  isPhrase :: bool

definition parser_init :: parser where
  "parser_init = \<lparr>keywords = [], phrases = [], phrase = [], isPhrase = False\<rparr>"

definition toggle_phrase :: "parser \<Rightarrow> parser" where
  "toggle_phrase st =
     (let st1 = st\<lparr>isPhrase := \<not> isPhrase st\<rparr>
      in if \<not> isPhrase st1
         then st1\<lparr>phrases := phrases st1 @ [py_strip (phrase st1)], phrase := []\<rparr>
         else st1)"

definition phrase_branch :: "parser \<Rightarrow> string \<Rightarrow> parser" where
  "phrase_branch st term =
     (if hd term = CHR '':'' then
        (if last term = CHR '':'' then
           st\<lparr>phrases := phrases st @ [py_strip (py_slice 1 (int (length term) - 1) term)],
              phrase := []\<rparr>
         else st\<lparr>phrase := phrase st @ drop 1 term @ '' ''\<rparr>)
      else if last term = CHR '':'' then
        st\<lparr>phrases := phrases st @ [py_strip (phrase st @ butlast term @ '' '')],
           phrase := [], isPhrase := False\<rparr>
      else st\<lparr>phrase := phrase st @ term @ '' ''\<rparr>)"

definition parse_term :: "parser \<Rightarrow> string \<Rightarrow> py_error + parser" where
  "parse_term st term =
     (if term = [] then Inl IndexError
      else
        (let st1 = (if hd term = CHR '':'' then toggle_phrase st else st)
         in if hd term = CHR '':'' \<and> length term = 1
            then Inl (SystemExit InvalidPhraseDelimiter)
            else if isPhrase st1 then Inr (phrase_branch st1 term)
            else Inr (st1\<lparr>keywords := keywords st1 @ [term]\<rparr>)))"

fun parse_loop :: "parser \<Rightarrow> string list \<Rightarrow> py_error + parser" where
  "parse_loop st [] = Inr st"
| "parse_loop st (term # query) =
     (case parse_term st term of
        Inl e \<Rightarrow> Inl e
      | Inr st' \<Rightarrow> parse_loop st' query)"

definition parseQuery :: "string list \<Rightarrow> py_error + (string list \<times> string list)" where
  "parseQuery query =
     (case parse_loop parser_init query of
        Inl e \<Rightarrow> Inl e
      | Inr st \<Rightarrow> Inr (keywords st, phrases st))"

section \<open>index.py: generateIndex\<close>

text \<open>
  A corpus is the list \<open>json.load\<close> returns: each document a JSON object, kept as the
  list of its (key, value) pairs in field order. The values are null, booleans, integers
  and strings; \<open>JOther\<close> stands for an array or an object (floats are not modelled).
  An integer that \<open>json.load\<close> returns has at most 4300 digits, for the same limit of
  CPython on conversions between integers and decimal strings.
\<close>

datatype jvalue = JNull | JBool bool | JInt int | JStr string | JOther

type_synonym document = "(string \<times> jvalue) list"

text \<open>
  The builtin \<open>int(x)\<close>. On a string: whitespace is stripped, a sign may follow, then
  decimal digits, where single underscores may stand between digits. CPython (3.11)
  refuses a string of more than 4300 digits with ValueError.
\<close>

definition is_int_space :: "char \<Rightarrow> bool" where
  "is_int_space c =
     (let n = (of_char c :: nat) in (9 \<le> n \<and> n \<le> 13) \<or> n = 32 \<or> n = 133 \<or> n = 160)"

definition is_digit :: "char \<Rightarrow> bool" where
  "is_digit c = (let n = (of_char c :: nat) in 48 \<le> n \<and> n \<le> 57)"

definition digit_val :: "char \<Rightarrow> int" where
  "digit_val c = int (of_char c) - 48"

fun no_double_underscore :: "string \<Rightarrow> bool" where
  "no_double_underscore (a # b # cs) =
     (\<not> (a = CHR ''_'' \<and> b = CHR ''_'') \<and> no_double_underscore (b # cs))"
| "no_double_underscore cs = True"

definition valid_digits :: "string \<Rightarrow> bool" where
  "valid_digits s =
     (s \<noteq> [] \<and> is_digit (hd s) \<and> is_digit (last s) \<and>
      list_all (\<lambda>c. is_digit c \<or> c = CHR ''_'') s \<and> no_double_underscore s)"

definition digits_value :: "string \<Rightarrow> int" where
  "digits_value s = foldl (\<lambda>acc c. 10 * acc + digit_val c) 0 (filter is_digit s)"

definition int_of_string :: "string \<Rightarrow> py_error + int" where
  "int_of_string s =
     (let t = rev (dropWhile is_int_space (rev (dropWhile is_int_space s)));
          neg = (t \<noteq> [] \<and> hd t = CHR ''-'');
          body = (if t \<noteq> [] \<and> (hd t = CHR ''-'' \<or> hd t = CHR ''+'') then tl t else t)
      in if valid_digits body \<and> length (filter is_digit body) \<le> 4300
         then Inr (if neg then - digits_value body else digits_value body)
         else Inl ValueError)"

definition py_int :: "jvalue \<Rightarrow> py_error + int" where
  "py_int v =
     (case v of
        JNull \<Rightarrow> Inl TypeError
      | JBool b \<Rightarrow> Inr (if b then 1 else 0)
      | JInt n \<Rightarrow> Inr n
      | JStr s \<Rightarrow> int_of_string s
      | JOther \<Rightarrow> Inl TypeError)"

text \<open>
  A Python dict keeps its keys in insertion order; assignment to a present key keeps the
  key's place.
\<close>

fun dict_set :: "('k \<times> 'v) list \<Rightarrow> 'k \<Rightarrow> 'v \<Rightarrow> ('k \<times> 'v) list" where
  "dict_set [] k v = [(k, v)]"
| "dict_set ((k', v') # d) k v =
     (if k' = k then (k, v) # d else (k', v') # dict_set d k v)"

text \<open>
  An entry of the inverted index. A posting is \<open>docId\<close>, which is \<open>None\<close> until the
  loop over a document's keys has met \<open>doc_id\<close>.
\<close>

record entry =
  DF :: int
  postings :: "int option list"

type_synonym inverted_index = "(string \<times> entry) list"

type_synonym doc_index = "(int \<times> string) list"

text \<open>
  \<open>list.sort()\<close> on a postings list: comparing \<open>None\<close> with anything raises TypeError,
  and a list of two or more elements is compared.
\<close>

definition py_sort :: "int option list \<Rightarrow> py_error + int option list" where
  "py_sort ps =
     (if length ps \<le> 1 then Inr ps
      else if None \<in> set ps then Inl TypeError
      else Inr (map Some (sort (map the ps))))"

text \<open>\<open>re.sub(r'[^\w\s]', '', token).lower()\<close>\<close>

definition normalize_token :: "string \<Rightarrow> string" where
  "normalize_token token = py_lower (filter (\<lambda>c. is_word c \<or> is_space c) token)"

text \<open>The variables of \<open>generateIndex\<close>; \<open>docId\<close> and \<open>docString\<close> are reset per document.\<close>

record builder =
  docIDs :: "int list"
  index :: inverted_index
  docIndex :: doc_index
  docId :: "int option"
  docString :: string

definition add_posting :: "inverted_index \<Rightarrow> string \<Rightarrow> int option \<Rightarrow> py_error + inverted_index" where
  "add_posting idx token d =
     (case map_of idx token of
        Some e \<Rightarrow>
          (if d \<notin> set (postings e) then
             (case py_sort (postings e @ [d]) of
                Inl err \<Rightarrow> Inl err
              | Inr ps \<Rightarrow> Inr (dict_set idx token (e\<lparr>DF := DF e + 1, postings := ps\<rparr>)))
           else Inr idx)
      | None \<Rightarrow> Inr (dict_set idx token \<lparr>DF = 1, postings = [d]\<rparr>))"

definition token_step :: "builder \<Rightarrow> string \<Rightarrow> py_error + builder" where
  "token_step b raw =
     (let token = normalize_token raw
      in if token \<noteq> [] then
           (case add_posting (index b) token (docId b) of
              Inl err \<Rightarrow> Inl err
            | Inr idx \<Rightarrow> Inr (b\<lparr>docString := docString b @ token @ '' '', index := idx\<rparr>))
         else Inr b)"

fun token_loop :: "builder \<Rightarrow> string list \<Rightarrow> py_error + builder" where
  "token_loop b [] = Inr b"
| "token_loop b (raw # raws) =
     (case token_step b raw of
        Inl err \<Rightarrow> Inl err
      | Inr b' \<Rightarrow> token_loop b' raws)"

definition key_step :: "builder \<Rightarrow> string \<times> jvalue \<Rightarrow> py_error + builder" where
  "key_step b kv =
     (let key = fst kv; v = snd kv
      in if v = JNull \<or> v = JStr [] then Inl (SystemExit EmptyZoneContent)
         else if key = ''doc_id'' then
           (case py_int v of
              Inl err \<Rightarrow> Inl err
            | Inr n \<Rightarrow>
                if n \<in> set (docIDs b) then Inl (SystemExit DuplicateDocIDs)
                else Inr (b\<lparr>docId := Some n, docIDs := docIDs b @ [n]\<rparr>))
         else
           (case v of
              JStr s \<Rightarrow> token_loop b (py_split s)
            | _ \<Rightarrow> Inl AttributeError))"

fun key_loop :: "builder \<Rightarrow> document \<Rightarrow> py_error + builder" where
  "key_loop b [] = Inr b"
| "key_loop b (kv # kvs) =
     (case key_step b kv of
        Inl err \<Rightarrow> Inl err
      | Inr b' \<Rightarrow> key_loop b' kvs)"

definition doc_step :: "builder \<Rightarrow> document \<Rightarrow> py_error + builder" where
  "doc_step b doc =
     (if length doc \<le> 1 then Inl (SystemExit DocumentNeedsZone)
      else
        (case key_loop (b\<lparr>docId := None, docString := []\<rparr>) doc of
           Inl err \<Rightarrow> Inl err
         | Inr b' \<Rightarrow>
             (case docId b' of
                None \<Rightarrow> Inl (SystemExit NoDocID)
              | Some n \<Rightarrow> Inr (b'\<lparr>docIndex := dict_set (docIndex b') n (docString b')\<rparr>))))"

fun doc_loop :: "builder \<Rightarrow> document list \<Rightarrow> py_error + builder" where
  "doc_loop b [] = Inr b"
| "doc_loop b (doc # corpus) =
     (case doc_step b doc of
        Inl err \<Rightarrow> Inl err
      | Inr b' \<Rightarrow> doc_loop b' corpus)"

definition builder_init :: builder where
  "builder_init = \<lparr>docIDs = [], index = [], docIndex = [], docId = None, docString = []\<rparr>"

definition generateIndex :: "document list \<Rightarrow> py_error + (inverted_index \<times> doc_index)" where
  "generateIndex corpus =
     (case doc_loop builder_init corpus of
        Inl err \<Rightarrow> Inl err
      | Inr b \<Rightarrow> Inr (sort_key fst (index b), sort_key fst (docIndex b)))"

section \<open>index.py: generateIndexFiles and buildIndex\<close>

text \<open>
  \<open>str(n)\<close> of an integer, \<open>str(xs)\<close> of a postings list (\<open>[1, 2]\<close>, with \<open>None\<close> for
  a null posting) and the two line formats.
\<close>

fun str_nat :: "nat \<Rightarrow> string" where
  "str_nat n =
     (if n < 10 then [char_of (48 + n)] else str_nat (n div 10) @ [char_of (48 + n mod 10)])"

declare str_nat.simps [simp del]

definition str_int :: "int \<Rightarrow> string" where
  "str_int n = (if n < 0 then CHR ''-'' # str_nat (nat (- n)) else str_nat (nat n))"

definition str_posting :: "int option \<Rightarrow> string" where
  "str_posting d = (case d of None \<Rightarrow> ''None'' | Some n \<Rightarrow> str_int n)"

fun join :: "string \<Rightarrow> string list \<Rightarrow> string" where
  "join sep [] = []"
| "join sep [x] = x"
| "join sep (x # y # ys) = x @ sep @ join sep (y # ys)"

definition str_postings :: "int option list \<Rightarrow> string" where
  "str_postings ps = ''['' @ join '', '' (map str_posting ps) @ '']''"

definition TAB :: char where
  "TAB = CHR 0x09"

definition NL :: char where
  "NL = CHR 0x0A"

definition CR :: char where
  "CR = CHR 0x0D"

definition BACKSLASH :: char where
  "BACKSLASH = CHR 0x5C"

definition docIndex_line :: "int \<times> string \<Rightarrow> string" where
  "docIndex_line kv = str_int (fst kv) @ [TAB] @ snd kv @ [NL]"

definition index_line :: "string \<times> entry \<Rightarrow> string" where
  "index_line kv =
     fst kv @ [TAB] @ str_int (DF (snd kv)) @ [TAB] @ str_postings (postings (snd kv)) @ [NL]"

text \<open>
  The file system: the directories, and the text files with their contents, by path.
  \<open>generateIndexFiles\<close> returns without writing when the index folder exists.
\<close>

record filesystem =
  dirs :: "string list"
  files :: "(string \<times> string) list"

definition index_tsv :: "string \<Rightarrow> string" where
  "index_tsv loc = loc @ [BACKSLASH] @ ''index.tsv''"

definition docIndex_tsv :: "string \<Rightarrow> string" where
  "docIndex_tsv loc = loc @ [BACKSLASH] @ ''docIndex.tsv''"

definition generateIndexFiles ::
  "filesystem \<Rightarrow> string \<Rightarrow> inverted_index \<times> doc_index \<Rightarrow> filesystem" where
  "generateIndexFiles fs indexFileLoc indexes =
     (let loc = indexFileLoc @ [BACKSLASH] @ ''index''
      in if loc \<in> set (dirs fs) \<or> loc \<in> fst ` set (files fs) then fs
         else fs\<lparr>dirs := dirs fs @ [loc],
                 files := dict_set
                   (dict_set (files fs) (index_tsv loc) (concat (map index_line (fst indexes))))
                   (docIndex_tsv loc) (concat (map docIndex_line (snd indexes)))\<rparr>)"

text \<open>
  \<open>buildIndex\<close> on the corpus file's content as \<open>json.load\<close> returns it (\<open>None\<close>: the
  file is not found). The result is the file system afterwards and the error that ended
  the run, if any: an exit or an exception inside \<open>generateIndex\<close> happens before
  \<open>generateIndexFiles\<close> is called.
\<close>

definition buildIndex ::
  "filesystem \<Rightarrow> document list option \<Rightarrow> string \<Rightarrow> filesystem \<times> py_error option" where
  "buildIndex fs corpusFile indexPath =
     (case corpusFile of
        None \<Rightarrow> (fs, None)
      | Some corpus \<Rightarrow>
          (case generateIndex corpus of
             Inl err \<Rightarrow> (fs, Some err)
           | Inr indexes \<Rightarrow> (generateIndexFiles fs indexPath indexes, None)))"

section \<open>query.py: buildIndexes\<close>

text \<open>
  \<open>s.split(sep)\<close> for a non-empty separator: the second argument counts the characters
  of a matched separator still to be skipped, the third is the piece read so far.
\<close>

fun split_sep :: "string \<Rightarrow> nat \<Rightarrow> string \<Rightarrow> string \<Rightarrow> string list" where
  "split_sep sep k cur [] = [cur]"
| "split_sep sep (Suc k) cur (c # cs) = split_sep sep k cur cs"
| "split_sep sep 0 cur (c # cs) =
     (if take (length sep) (c # cs) = sep
      then cur # split_sep sep (length sep - 1) [] cs
      else split_sep sep 0 (cur @ [c]) cs)"

definition py_split_on :: "string \<Rightarrow> string \<Rightarrow> string list" where
  "py_split_on sep s = split_sep sep 0 [] s"

text \<open>
  Iterating over a text file: one line per newline, the newline kept; a carriage return,
  alone or before a newline, reads as a newline. The flag says that the last character
  was a carriage return.
\<close>

fun file_lines :: "string \<Rightarrow> bool \<Rightarrow> string \<Rightarrow> string list" where
  "file_lines cur afterCR [] = (if cur = [] then [] else [cur])"
| "file_lines cur afterCR (c # cs) =
     (if c = NL then (if afterCR then file_lines cur False cs
                      else (cur @ [NL]) # file_lines [] False cs)
      else if c = CR then (cur @ [NL]) # file_lines [] True cs
      else file_lines (cur @ [c]) False cs)"

fun ints_loop :: "string list \<Rightarrow> py_error + int option list" where
  "ints_loop [] = Inr []"
| "ints_loop (s # ss) =
     (case int_of_string s of
        Inl err \<Rightarrow> Inl err
      | Inr n \<Rightarrow> (case ints_loop ss of Inl err \<Rightarrow> Inl err | Inr ns \<Rightarrow> Inr (Some n # ns)))"

definition index_line_step :: "inverted_index \<Rightarrow> string \<Rightarrow> py_error + inverted_index" where
  "index_line_step idx line =
     (case py_split_on [TAB] line of
        [token, df, ps] \<Rightarrow>
          (case ints_loop (py_split_on '', '' (py_slice 1 (int (length ps) - 2) ps)) of
             Inl err \<Rightarrow> Inl err
           | Inr postingsInt \<Rightarrow>
               (case int_of_string df of
                  Inl err \<Rightarrow> Inl err
                | Inr n \<Rightarrow> Inr (dict_set idx token \<lparr>DF = n, postings = postingsInt\<rparr>)))
      | _ \<Rightarrow> Inl ValueError)"

fun index_lines_loop :: "inverted_index \<Rightarrow> string list \<Rightarrow> py_error + inverted_index" where
  "index_lines_loop idx [] = Inr idx"
| "index_lines_loop idx (line # lines) =
     (case index_line_step idx line of
        Inl err \<Rightarrow> Inl err
      | Inr idx' \<Rightarrow> index_lines_loop idx' lines)"

definition docIndex_line_step :: "doc_index \<Rightarrow> string \<Rightarrow> py_error + doc_index" where
  "docIndex_line_step dix line =
     (case py_split_on [TAB] line of
        [d, text] \<Rightarrow>
          (case int_of_string d of
             Inl err \<Rightarrow> Inl err
           | Inr n \<Rightarrow> Inr (dict_set dix n (py_slice 0 (int (length text) - 2) text)))
      | _ \<Rightarrow> Inl ValueError)"

fun docIndex_lines_loop :: "doc_index \<Rightarrow> string list \<Rightarrow> py_error + doc_index" where
  "docIndex_lines_loop dix [] = Inr dix"
| "docIndex_lines_loop dix (line # lines) =
     (case docIndex_line_step dix line of
        Inl err \<Rightarrow> Inl err
      | Inr dix' \<Rightarrow> docIndex_lines_loop dix' lines)"

definition buildIndexes :: "filesystem \<Rightarrow> string \<Rightarrow> py_error + (inverted_index \<times> doc_index)" where
  "buildIndexes fs indexPath =
     (case map_of (files fs) (index_tsv indexPath) of
        None \<Rightarrow> Inl (SystemExit IndexFileNotFound)
      | Some indexFile \<Rightarrow>
          (case map_of (files fs) (docIndex_tsv indexPath) of
             None \<Rightarrow> Inl (SystemExit DocIndexFileNotFound)
           | Some docIndexFile \<Rightarrow>
               (case index_lines_loop [] (file_lines [] False indexFile) of
                  Inl err \<Rightarrow> Inl err
                | Inr idx \<Rightarrow>
                    (case docIndex_lines_loop [] (file_lines [] False docIndexFile) of
                       Inl err \<Rightarrow> Inl err
                     | Inr dix \<Rightarrow> Inr (idx, dix)))))"

section \<open>query.py: getPhraseResults\<close>

text \<open>\<open>p in s\<close> on strings: \<open>p\<close> occurs in \<open>s\<close> as a contiguous run.\<close>

definition is_substring :: "string \<Rightarrow> string \<Rightarrow> bool" where
  "is_substring p s = list_ex (\<lambda>i. take (length p) (drop i s) = p) [0..<Suc (length s)]"

text \<open>
  \<open>list(set(docs) & set(postings))\<close>: the documents of \<open>docs\<close> that are postings, each
  once. Python leaves the order of a set open; the model lists them in the order of
  \<open>docs\<close>.
\<close>

definition intersect_postings :: "int list \<Rightarrow> int option list \<Rightarrow> int list" where
  "intersect_postings docs ps = filter (\<lambda>d. Some d \<in> set ps) (remdups docs)"

text \<open>The loop over a phrase's terms; a term that is not in the index ends it (\<open>break\<close>).\<close>

fun phrase_terms_loop :: "inverted_index \<Rightarrow> int list \<Rightarrow> string list \<Rightarrow> int list" where
  "phrase_terms_loop idx docs [] = docs"
| "phrase_terms_loop idx docs (term # terms) =
     (case map_of idx term of
        None \<Rightarrow> docs
      | Some e \<Rightarrow> phrase_terms_loop idx (intersect_postings docs (postings e)) terms)"

record phrase_acc =
  phraseResults :: "int list"
  consideredDocs :: "int list"

definition phrase_doc_step ::
  "doc_index \<Rightarrow> string \<Rightarrow> phrase_acc \<Rightarrow> int \<Rightarrow> py_error + phrase_acc" where
  "phrase_doc_step dix p acc doc =
     (case map_of dix doc of
        None \<Rightarrow> Inl KeyError
      | Some text \<Rightarrow>
          (let acc1 = (if is_substring (py_strip p) text \<and> doc \<notin> set (phraseResults acc)
                       then acc\<lparr>phraseResults := phraseResults acc @ [doc]\<rparr> else acc)
           in Inr (if doc \<notin> set (consideredDocs acc1)
                   then acc1\<lparr>consideredDocs := consideredDocs acc1 @ [doc]\<rparr> else acc1)))"

fun phrase_docs_loop ::
  "doc_index \<Rightarrow> string \<Rightarrow> phrase_acc \<Rightarrow> int list \<Rightarrow> py_error + phrase_acc" where
  "phrase_docs_loop dix p acc [] = Inr acc"
| "phrase_docs_loop dix p acc (doc # docs) =
     (case phrase_doc_step dix p acc doc of
        Inl err \<Rightarrow> Inl err
      | Inr acc' \<Rightarrow> phrase_docs_loop dix p acc' docs)"

fun phrases_loop ::
  "inverted_index \<Rightarrow> doc_index \<Rightarrow> phrase_acc \<Rightarrow> string list \<Rightarrow> py_error + phrase_acc" where
  "phrases_loop idx dix acc [] = Inr acc"
| "phrases_loop idx dix acc (p # ps) =
     (case phrase_docs_loop dix p acc (phrase_terms_loop idx (map fst dix) (py_split p)) of
        Inl err \<Rightarrow> Inl err
      | Inr acc' \<Rightarrow> phrases_loop idx dix acc' ps)"

definition getPhraseResults ::
  "inverted_index \<Rightarrow> doc_index \<Rightarrow> string list \<Rightarrow> py_error + (int list \<times> nat)" where
  "getPhraseResults idx dix ps =
     (if length ps = 0 then Inr (sort (map fst dix), length (map fst dix))
      else
        (case phrases_loop idx dix \<lparr>phraseResults = [], consideredDocs = []\<rparr> ps of
           Inl err \<Rightarrow> Inl err
         | Inr acc \<Rightarrow> Inr (sort (phraseResults acc), length (consideredDocs acc))))"

section \<open>query.py: cosineScore\<close>

text \<open>
  Scores and lengths are Python floats in the source; the model computes with exact
  rationals, so rounding is not modelled, and a score or an order of scores that a
  rounding decides is outside the model. Division by a zero length raises
  ZeroDivisionError, as the float division does; the property below rests on that alone.
\<close>

text \<open>The first loop: \<open>scores[doc] = 0\<close> and \<open>lengths[doc] = float(len(docIndex[doc].split()))\<close>.\<close>

fun lengths_loop ::
  "doc_index \<Rightarrow> (int \<times> rat) list \<times> (int \<times> rat) list \<Rightarrow> int list \<Rightarrow>
   py_error + ((int \<times> rat) list \<times> (int \<times> rat) list)" where
  "lengths_loop dix sl [] = Inr sl"
| "lengths_loop dix sl (doc # docs) =
     (case map_of dix doc of
        None \<Rightarrow> Inl KeyError
      | Some text \<Rightarrow>
          lengths_loop dix
            (dict_set (fst sl) doc 0, dict_set (snd sl) doc (of_nat (length (py_split text))))
            docs)"

text \<open>\<open>scores[doc] += termWeight\<close>, with the handler that stores the weight for a new key.\<close>

definition add_weight :: "rat \<Rightarrow> (int \<times> rat) list \<Rightarrow> int \<Rightarrow> (int \<times> rat) list" where
  "add_weight w scores doc =
     (case map_of scores doc of
        Some v \<Rightarrow> dict_set scores doc (v + w)
      | None \<Rightarrow> dict_set scores doc w)"

fun keywords_loop ::
  "inverted_index \<Rightarrow> int list \<Rightarrow> rat \<Rightarrow> (int \<times> rat) list \<Rightarrow> string list \<Rightarrow> (int \<times> rat) list" where
  "keywords_loop idx docs w scores [] = scores"
| "keywords_loop idx docs w scores (term # terms) =
     (case map_of idx term of
        None \<Rightarrow> keywords_loop idx docs w scores terms
      | Some e \<Rightarrow>
          keywords_loop idx docs w
            (foldl (add_weight w) scores (intersect_postings docs (postings e))) terms)"

fun cosine_loop ::
  "(int \<times> rat) list \<Rightarrow> (int \<times> rat) list \<Rightarrow> (int \<times> rat) list \<Rightarrow>
   py_error + (int \<times> rat) list" where
  "cosine_loop scores cs [] = Inr cs"
| "cosine_loop scores cs ((doc, len) # lengths) =
     (case map_of scores doc of
        None \<Rightarrow> Inl KeyError
      | Some v \<Rightarrow>
          if len = 0 then Inl ZeroDivisionError
          else cosine_loop scores (dict_set cs doc (v / len)) lengths)"

text \<open>
  \<open>sorted(..., key=score, reverse=True)\<close> keeps the order of entries with equal scores,
  then the entries with a positive score are kept, and the slice \<open>[0:numResults]\<close> is
  returned with the number of entries kept.
\<close>

definition cosineScore ::
  "inverted_index \<Rightarrow> doc_index \<Rightarrow> string list \<Rightarrow> int list \<Rightarrow> int \<Rightarrow>
   py_error + ((int \<times> rat) list \<times> nat)" where
  "cosineScore idx dix kws docs numResults =
     (case lengths_loop dix ([], []) docs of
        Inl err \<Rightarrow> Inl err
      | Inr sl \<Rightarrow>
          (let scores = keywords_loop idx docs (1 / of_nat (length kws)) (fst sl) kws
           in case cosine_loop scores [] (snd sl) of
                Inl err \<Rightarrow> Inl err
              | Inr cs \<Rightarrow>
                  (let cosineScores = filter (\<lambda>kv. snd kv > 0) (sort_key (\<lambda>kv. - snd kv) cs)
                   in Inr (py_slice 0 numResults cosineScores, length cosineScores))))"

section \<open>Predicates used to state the properties\<close>

text \<open>
  The comparison \<open><\<close> that \<open>list.sort()\<close> uses on postings: it holds between two integers
  only (it raises when a side is \<open>None\<close>). A postings list is strictly ascending when every
  earlier element is below every later one; a list of one element is so trivially.
\<close>

definition posting_lt :: "int option \<Rightarrow> int option \<Rightarrow> bool" where
  "posting_lt a b =
     (case a of None \<Rightarrow> False | Some x \<Rightarrow> (case b of None \<Rightarrow> False | Some y \<Rightarrow> x < y))"

definition entry_ok :: "entry \<Rightarrow> bool" where
  "entry_ok e =
     (DF e = int (length (postings e)) \<and> sorted_wrt posting_lt (postings e) \<and>
      distinct (postings e))"

definition index_ok :: "inverted_index \<Rightarrow> bool" where
  "index_ok idx = (\<forall>(t, e) \<in> set idx. entry_ok e)"

text \<open>The posting \<open>d\<close> is recorded for the term \<open>t\<close>.\<close>

definition has_posting :: "inverted_index \<Rightarrow> string \<Rightarrow> int option \<Rightarrow> bool" where
  "has_posting idx t d =
     (case map_of idx t of None \<Rightarrow> False | Some e \<Rightarrow> d \<in> set (postings e))"

text \<open>
  The validation violations of a corpus: a document with fewer than two fields, a field
  whose content is null or the empty string, a document without the \<open>doc_id\<close> field,
  and two documents whose \<open>doc_id\<close> fields hold the same integer (\<open>doc_ident\<close> is
  \<open>int(doc["doc_id"])\<close> where that is defined).
\<close>

definition doc_violation :: "document \<Rightarrow> bool" where
  "doc_violation doc =
     (length doc < 2 \<or> (\<exists>kv \<in> set doc. snd kv = JNull \<or> snd kv = JStr []) \<or>
      ''doc_id'' \<notin> fst ` set doc)"

definition doc_ident :: "document \<Rightarrow> int option" where
  "doc_ident doc =
     (case map_of doc ''doc_id'' of
        None \<Rightarrow> None
      | Some v \<Rightarrow> (case py_int v of Inl err \<Rightarrow> None | Inr n \<Rightarrow> Some n))"

definition idents :: "document list \<Rightarrow> int list" where
  "idents corpus = concat (map (\<lambda>doc. case doc_ident doc of None \<Rightarrow> [] | Some n \<Rightarrow> [n]) corpus)"

definition has_violation :: "document list \<Rightarrow> bool" where
  "has_violation corpus = ((\<exists>doc \<in> set corpus. doc_violation doc) \<or> \<not> distinct (idents corpus))"

text \<open>
  The tokens of a zone's text, in order: each unit of \<open>s.split()\<close> normalized as the
  loop over a zone does, the units that normalize to the empty string left out. A token is
  well-formed (\<open>token_ok\<close>) when it is non-empty and made of word characters
  (alphanumeric or underscore) that are not uppercase.
\<close>

definition tokenize :: "string \<Rightarrow> string list" where
  "tokenize s = filter (\<lambda>t. t \<noteq> []) (map normalize_token (py_split s))"

definition token_ok :: "string \<Rightarrow> bool" where
  "token_ok t = (t \<noteq> [] \<and> (\<forall>c \<in> set t. is_word c \<and> \<not> is_upper c))"


section \<open>Properties of parseQuery\<close>

lemma parse_term_lone_delimiter:
  "parse_term st '':'' = Inl (SystemExit InvalidPhraseDelimiter)"
  by (simp add: parse_term_def)

lemma parse_term_empty: "parse_term st [] = Inl IndexError"
  by (simp add: parse_term_def)

lemma parse_term_nonempty:
  "term \<noteq> [] \<Longrightarrow>
   parse_term st term = Inl (SystemExit InvalidPhraseDelimiter) \<or> (\<exists>st'. parse_term st term = Inr st')"
  by (simp add: parse_term_def Let_def)

lemma parse_term_not_delimiter:
  "term \<noteq> '':'' \<Longrightarrow>
   parse_term st term = Inl IndexError \<or> (\<exists>st'. parse_term st term = Inr st')"
  by (cases "term") (auto simp add: parse_term_def Let_def)

lemma parse_loop_lone_delimiter:
  "[] \<notin> set pre \<Longrightarrow>
   parse_loop st (pre @ '':'' # post) = Inl (SystemExit InvalidPhraseDelimiter)"
proof (induction pre arbitrary: st)
  case Nil
  then show ?case by (simp add: parse_term_lone_delimiter)
next
  case (Cons t pre)
  then have "t \<noteq> []" by auto
  from parse_term_nonempty[OF this, of st] Cons show ?case by auto
qed

lemma parse_loop_empty_token:
  "'':'' \<notin> set pre \<Longrightarrow> parse_loop st (pre @ [] # post) = Inl IndexError"
proof (induction pre arbitrary: st)
  case Nil
  then show ?case by (simp add: parse_term_empty)
next
  case (Cons t pre)
  then have "t \<noteq> '':''" by auto
  from parse_term_not_delimiter[OF this, of st] Cons show ?case by auto
qed

text \<open>
  Claim C4 (the code at the failing input). The token \<open>:abc:\<close> is captured as the phrase
  \<open>abc\<close>, but the phrase flag it toggled stays set: the plain token \<open>x\<close> that follows is
  read into the phrase buffer and is not a keyword of the result.
\<close>

theorem parseQuery_single_token_phrase_keeps_mode:
  "parseQuery ['':abc:'', ''x''] = Inr ([], [''abc''])"
  by (simp add: parseQuery_def parser_init_def parse_term_def toggle_phrase_def
      phrase_branch_def py_slice_def slice_bound_def py_strip_def is_space_def)

text \<open>
  Claim C5, as stated, fails when an empty token comes before the lone delimiter: the
  read of its first character raises IndexError, which is not the parse error.
\<close>

theorem parseQuery_lone_delimiter_counterexample:
  "parseQuery ['''', '':''] = Inl IndexError"
  by (simp add: parseQuery_def parse_term_def)

text \<open>
  Claim C5, amended. If the query holds a lone delimiter token and no token before it is
  the empty string, parsing ends in the parse error (the exit after the message about the
  phrase delimiter) and returns no (keywords, phrases) pair.
\<close>

theorem parseQuery_lone_delimiter_rejected:
  assumes "query = pre @ '':'' # post" and "[] \<notin> set pre"
  shows "parseQuery query = Inl (SystemExit InvalidPhraseDelimiter)"
  using assms by (simp add: parseQuery_def parse_loop_lone_delimiter)

theorem parseQuery_lone_delimiter_rejected_witness:
  "parseQuery ['':fast'', ''car'', '':'', ''x''] = Inl (SystemExit InvalidPhraseDelimiter)"
  using parseQuery_lone_delimiter_rejected [of "['':fast'', ''car'', '':'', ''x'']" "['':fast'', ''car'']" "[''x'']"]
  by simp

text \<open>
  Claim C9, as stated, fails when a lone delimiter comes before the empty token: parsing
  has already exited with the parse error.
\<close>

theorem parseQuery_empty_token_counterexample:
  "parseQuery ['':'', ''''] = Inl (SystemExit InvalidPhraseDelimiter)"
  by (simp add: parseQuery_def parse_term_def)

text \<open>
  Claim C9, amended. If the query holds an empty-string token and no token before it is
  the lone delimiter, parsing raises IndexError: neither a (keywords, phrases) pair nor
  the parse error.
\<close>

theorem parseQuery_empty_token_raises:
  assumes "query = pre @ [] # post" and "'':'' \<notin> set pre"
  shows "parseQuery query = Inl IndexError"
  using assms by (simp add: parseQuery_def parse_loop_empty_token)

theorem parseQuery_empty_token_raises_witness:
  "parseQuery [''fox'', '':quick'', '''', ''brown:''] = Inl IndexError"
  using parseQuery_empty_token_raises [of "[''fox'', '':quick'', '''', ''brown:'']" "[''fox'', '':quick'']" "[''brown:'']"]
  by simp

section \<open>Properties of generateIndex: the postings invariant\<close>

lemma map_of_dict_set: "map_of (dict_set d k v) = (map_of d)(k \<mapsto> v)"
  by (induction d k v rule: dict_set.induct) auto

lemma set_dict_set: "set (dict_set d k v) \<subseteq> insert (k, v) (set d)"
  by (induction d k v rule: dict_set.induct) auto

lemma keys_dict_set: "fst ` set (dict_set d k v) = insert k (fst ` set d)"
  by (induction d k v rule: dict_set.induct) auto

lemma distinct_dict_set: "distinct (map fst d) \<Longrightarrow> distinct (map fst (dict_set d k v))"
  by (induction d k v rule: dict_set.induct) (auto simp: keys_dict_set)

lemma Some_the_image: "None \<notin> A \<Longrightarrow> Some ` the ` A = A"
proof -
  assume "None \<notin> A"
  then have "\<And>x. x \<in> A \<Longrightarrow> Some (the x) = x" by (metis option.collapse)
  then show ?thesis by (force simp: image_iff)
qed

lemma py_sort_set: "py_sort ps = Inr ps' \<Longrightarrow> set ps' = set ps"
  by (auto simp: py_sort_def Some_the_image simp flip: image_image split: if_splits)

lemma py_sort_length: "py_sort ps = Inr ps' \<Longrightarrow> length ps' = length ps"
  by (auto simp: py_sort_def split: if_splits)

lemma sorted_wrt_posting_Some: "sorted_wrt posting_lt (map Some xs) = sorted_wrt (<) xs"
  by (simp add: sorted_wrt_map posting_lt_def)

lemma py_sort_sorted:
  assumes "py_sort ps = Inr ps'" and "distinct ps"
  shows "sorted_wrt posting_lt ps' \<and> distinct ps'"
proof (cases "length ps \<le> 1")
  case True
  then have "ps' = ps" using assms by (simp add: py_sort_def)
  moreover from True have "sorted_wrt posting_lt ps" by (cases ps) (auto)
  ultimately show ?thesis using assms by simp
next
  case False
  then have nn: "None \<notin> set ps" and eq: "ps' = map Some (sort (map the ps))"
    using assms by (auto simp: py_sort_def split: if_splits)
  have inj: "inj_on the (set ps)" using nn by (auto simp: inj_on_def) (metis option.collapse)
  have d: "distinct (map the ps)" using assms(2) inj by (simp add: distinct_map)
  then have "sorted_wrt (<) (sort (map the ps))"
    by (simp add: strict_sorted_iff)
  then show ?thesis using eq d by (simp add: sorted_wrt_posting_Some distinct_map)
qed

lemma add_posting_index_ok:
  assumes "index_ok idx" and "add_posting idx token d = Inr idx'"
  shows "index_ok idx'"
proof (cases "map_of idx token")
  case None
  then have "idx' = dict_set idx token \<lparr>DF = 1, postings = [d]\<rparr>"
    using assms by (simp add: add_posting_def)
  then show ?thesis using assms(1) set_dict_set[of idx token "\<lparr>DF = 1, postings = [d]\<rparr>"]
    by (auto simp: index_ok_def entry_ok_def)
next
  case (Some e)
  then have "(token, e) \<in> set idx" by (rule map_of_SomeD)
  then have e: "entry_ok e" using assms(1) by (auto simp: index_ok_def)
  show ?thesis
  proof (cases "d \<in> set (postings e)")
    case True
    then show ?thesis using assms Some by (simp add: add_posting_def)
  next
    case False
    then obtain ps where ps: "py_sort (postings e @ [d]) = Inr ps"
      and eq: "idx' = dict_set idx token (e\<lparr>DF := DF e + 1, postings := ps\<rparr>)"
      using assms Some by (auto simp: add_posting_def split: sum.splits)
    have "distinct (postings e @ [d])" using e False by (simp add: entry_ok_def)
    from py_sort_sorted[OF ps this] py_sort_length[OF ps] e
    have "entry_ok (e\<lparr>DF := DF e + 1, postings := ps\<rparr>)" by (simp add: entry_ok_def)
    then show ?thesis using assms(1) eq set_dict_set[of idx token "e\<lparr>DF := DF e + 1, postings := ps\<rparr>"]
      by (auto simp: index_ok_def)
  qed
qed

lemma token_step_index_ok:
  "index_ok (index b) \<Longrightarrow> token_step b raw = Inr b' \<Longrightarrow> index_ok (index b')"
  by (auto simp: token_step_def Let_def split: if_splits sum.splits dest: add_posting_index_ok)

lemma token_loop_index_ok:
  "index_ok (index b) \<Longrightarrow> token_loop b raws = Inr b' \<Longrightarrow> index_ok (index b')"
  by (induction raws arbitrary: b) (auto split: sum.splits dest: token_step_index_ok)

lemma key_step_index_ok:
  "index_ok (index b) \<Longrightarrow> key_step b kv = Inr b' \<Longrightarrow> index_ok (index b')"
  by (auto simp: key_step_def Let_def split: if_splits sum.splits jvalue.splits dest: token_loop_index_ok)

lemma key_loop_index_ok:
  "index_ok (index b) \<Longrightarrow> key_loop b kvs = Inr b' \<Longrightarrow> index_ok (index b')"
  by (induction kvs arbitrary: b) (auto split: sum.splits dest: key_step_index_ok)

lemma doc_step_index_ok:
  "index_ok (index b) \<Longrightarrow> doc_step b doc = Inr b' \<Longrightarrow> index_ok (index b')"
  by (auto simp: doc_step_def split: if_splits sum.splits option.splits dest!: key_loop_index_ok[rotated])

lemma doc_loop_index_ok:
  "index_ok (index b) \<Longrightarrow> doc_loop b corpus = Inr b' \<Longrightarrow> index_ok (index b')"
  by (induction corpus arbitrary: b) (auto split: sum.splits dest: doc_step_index_ok)

lemma generateIndex_index_ok:
  "generateIndex corpus = Inr (ix, dx) \<Longrightarrow> index_ok ix"
  by (auto simp: generateIndex_def split: sum.splits dest!: doc_loop_index_ok[rotated])
     (auto simp: index_ok_def builder_init_def)

text \<open>
  Claim C3. For every term of the inverted index of a successful build, \<open>DF\<close> is the
  number of postings and the postings are strictly ascending without duplicates
  (\<open>index_ok\<close>); and every postings update of the build (\<open>add_posting\<close>) that succeeds
  keeps this invariant.
\<close>

theorem generateIndex_postings_invariant:
  "(index_ok idx \<and> add_posting idx token d = Inr idx' \<longrightarrow> index_ok idx') \<and>
   (generateIndex corpus = Inr (ix, dx) \<longrightarrow>
      (\<forall>(t, e) \<in> set ix.
         DF e = int (length (postings e)) \<and> sorted_wrt posting_lt (postings e) \<and>
         distinct (postings e)))"
proof (intro conjI impI)
  assume "index_ok idx \<and> add_posting idx token d = Inr idx'"
  then show "index_ok idx'" using add_posting_index_ok by blast
next
  assume "generateIndex corpus = Inr (ix, dx)"
  then have "index_ok ix" by (rule generateIndex_index_ok)
  then show "\<forall>(t, e) \<in> set ix.
     DF e = int (length (postings e)) \<and> sorted_wrt posting_lt (postings e) \<and>
     distinct (postings e)"
    by (simp add: index_ok_def entry_ok_def)
qed

theorem generateIndex_postings_invariant_witness:
  "generateIndex
     [[(''doc_id'', JInt 2), (''text'', JStr ''the dog'')],
      [(''doc_id'', JInt 1), (''text'', JStr ''The fox'')]] =
   Inr ([(''dog'', \<lparr>DF = 1, postings = [Some 2]\<rparr>),
         (''fox'', \<lparr>DF = 1, postings = [Some 1]\<rparr>),
         (''the'', \<lparr>DF = 2, postings = [Some 1, Some 2]\<rparr>)],
        [(1, ''the fox ''), (2, ''the dog '')]) \<and>
   DF \<lparr>DF = 2, postings = [Some 1, Some 2]\<rparr> = int (length [Some (1::int), Some 2]) \<and>
   sorted_wrt posting_lt [Some 1, Some 2] \<and>
   index_ok [(''the'', \<lparr>DF = 1, postings = [Some 2]\<rparr>)] \<and>
   add_posting [(''the'', \<lparr>DF = 1, postings = [Some 2]\<rparr>)] ''the'' (Some 1) =
     Inr [(''the'', \<lparr>DF = 2, postings = [Some 1, Some 2]\<rparr>)] \<and>
   index_ok [(''the'', \<lparr>DF = 2, postings = [Some 1, Some 2]\<rparr>)]"
proof -
  let ?corpus = "[[(''doc_id'', JInt 2), (''text'', JStr ''the dog'')],
      [(''doc_id'', JInt 1), (''text'', JStr ''The fox'')]]"
  let ?ix = "[(''dog'', \<lparr>DF = 1, postings = [Some 2]\<rparr>),
         (''fox'', \<lparr>DF = 1, postings = [Some 1]\<rparr>),
         (''the'', \<lparr>DF = 2, postings = [Some 1, Some 2]\<rparr>)]"
  let ?dx = "[(1::int, ''the fox ''), (2, ''the dog '')]"
  let ?idx = "[(''the'', \<lparr>DF = 1, postings = [Some 2]\<rparr>)]"
  let ?idx' = "[(''the'', \<lparr>DF = 2, postings = [Some 1, Some 2]\<rparr>)]"
  have g: "generateIndex ?corpus = Inr (?ix, ?dx)" by code_simp
  have ok: "index_ok ?idx" by (simp add: index_ok_def entry_ok_def)
  have a: "add_posting ?idx ''the'' (Some 1) = Inr ?idx'" by code_simp
  note inst = generateIndex_postings_invariant
    [of ?idx "''the''" "Some 1" ?idx' ?corpus ?ix ?dx]
  from inst ok a have ok': "index_ok ?idx'" by blast
  from inst g have "\<forall>(t, e) \<in> set ?ix.
     DF e = int (length (postings e)) \<and> sorted_wrt posting_lt (postings e) \<and>
     distinct (postings e)" by blast
  then have "DF \<lparr>DF = 2, postings = [Some 1, Some 2]\<rparr> = int (length [Some (1::int), Some 2]) \<and>
     sorted_wrt posting_lt [Some 1, Some 2]" by simp
  with g ok a ok' show ?thesis by blast
qed

section \<open>Properties of generateIndex: postings recorded before the identifier is read\<close>

lemma has_posting_dict_set:
  "has_posting (dict_set idx k v) t x =
     (if t = k then x \<in> set (postings v) else has_posting idx t x)"
  by (simp add: has_posting_def map_of_dict_set)

lemma add_posting_result:
  assumes "add_posting idx token d = Inr idx'"
  shows "idx' = idx \<and> has_posting idx token d \<or>
    (\<exists>v. idx' = dict_set idx token v \<and> d \<in> set (postings v) \<and>
       (\<forall>x. has_posting idx token x \<longrightarrow> x \<in> set (postings v)))"
proof (cases "map_of idx token")
  case None
  then show ?thesis using assms by (auto simp: add_posting_def has_posting_def)
next
  case (Some e)
  show ?thesis
  proof (cases "d \<in> set (postings e)")
    case True
    then show ?thesis using assms Some by (simp add: add_posting_def has_posting_def)
  next
    case False
    then obtain ps where ps: "py_sort (postings e @ [d]) = Inr ps"
      and eq: "idx' = dict_set idx token (e\<lparr>DF := DF e + 1, postings := ps\<rparr>)"
      using assms Some by (auto simp: add_posting_def split: sum.splits)
    have "set ps = insert d (set (postings e))" using py_sort_set[OF ps] by simp
    then have "d \<in> set (postings (e\<lparr>DF := DF e + 1, postings := ps\<rparr>)) \<and>
       (\<forall>x. has_posting idx token x \<longrightarrow> x \<in> set (postings (e\<lparr>DF := DF e + 1, postings := ps\<rparr>)))"
      using Some by (simp add: has_posting_def)
    with eq show ?thesis by blast
  qed
qed

lemma add_posting_mono:
  assumes "add_posting idx token d = Inr idx'" and "has_posting idx t x"
  shows "has_posting idx' t x"
  using add_posting_result[OF assms(1)] assms(2)
  by (auto simp: has_posting_dict_set)

lemma add_posting_records:
  assumes "add_posting idx token d = Inr idx'"
  shows "has_posting idx' token d"
  using add_posting_result[OF assms(1)]
  by (auto simp: has_posting_dict_set)

lemma add_posting_keys:
  "add_posting idx token d = Inr idx' \<Longrightarrow> distinct (map fst idx) \<Longrightarrow> distinct (map fst idx')"
  by (auto simp: add_posting_def distinct_dict_set split: option.splits if_splits sum.splits)

lemma token_step_mono:
  "token_step b raw = Inr b' \<Longrightarrow> has_posting (index b) t x \<Longrightarrow> has_posting (index b') t x"
  by (auto simp: token_step_def Let_def split: if_splits sum.splits dest: add_posting_mono)

lemma token_step_records:
  "token_step b raw = Inr b' \<Longrightarrow> normalize_token raw \<noteq> [] \<Longrightarrow>
   has_posting (index b') (normalize_token raw) (docId b)"
  by (auto simp: token_step_def Let_def split: if_splits sum.splits dest: add_posting_records)

lemma token_step_frame:
  "token_step b raw = Inr b' \<Longrightarrow>
   docId b' = docId b \<and> docIDs b' = docIDs b \<and> docIndex b' = docIndex b"
  by (auto simp: token_step_def Let_def split: if_splits sum.splits)

lemma token_step_keys:
  "token_step b raw = Inr b' \<Longrightarrow> distinct (map fst (index b)) \<Longrightarrow> distinct (map fst (index b'))"
  by (auto simp: token_step_def Let_def split: if_splits sum.splits dest: add_posting_keys)

lemma token_loop_mono:
  "token_loop b raws = Inr b' \<Longrightarrow> has_posting (index b) t x \<Longrightarrow> has_posting (index b') t x"
  by (induction raws arbitrary: b) (auto split: sum.splits dest: token_step_mono)

lemma token_loop_frame:
  "token_loop b raws = Inr b' \<Longrightarrow>
   docId b' = docId b \<and> docIDs b' = docIDs b \<and> docIndex b' = docIndex b"
  by (induction raws arbitrary: b) (auto split: sum.splits dest: token_step_frame)

lemma token_loop_keys:
  "token_loop b raws = Inr b' \<Longrightarrow> distinct (map fst (index b)) \<Longrightarrow> distinct (map fst (index b'))"
  by (induction raws arbitrary: b) (auto split: sum.splits dest: token_step_keys)

lemma token_loop_records:
  "token_loop b raws = Inr b' \<Longrightarrow> raw \<in> set raws \<Longrightarrow> normalize_token raw \<noteq> [] \<Longrightarrow>
   has_posting (index b') (normalize_token raw) (docId b)"
proof (induction raws arbitrary: b)
  case Nil
  then show ?case by simp
next
  case (Cons r raws)
  from Cons.prems(1) obtain b1 where s: "token_step b r = Inr b1" and l: "token_loop b1 raws = Inr b'"
    by (auto split: sum.splits)
  have d: "docId b1 = docId b" using token_step_frame[OF s] by simp
  show ?case
  proof (cases "raw = r")
    case True
    with token_step_records[OF s] Cons.prems(3) have "has_posting (index b1) (normalize_token raw) (docId b)"
      by simp
    then show ?thesis using token_loop_mono[OF l] by simp
  next
    case False
    with Cons.prems(2) have "raw \<in> set raws" by simp
    from Cons.IH[OF l this Cons.prems(3)] d show ?thesis by simp
  qed
qed

lemma key_step_mono:
  "key_step b kv = Inr b' \<Longrightarrow> has_posting (index b) t x \<Longrightarrow> has_posting (index b') t x"
  by (auto simp: key_step_def Let_def split: if_splits sum.splits jvalue.splits dest: token_loop_mono)

lemma key_step_keys:
  "key_step b kv = Inr b' \<Longrightarrow> distinct (map fst (index b)) \<Longrightarrow> distinct (map fst (index b'))"
  by (auto simp: key_step_def Let_def split: if_splits sum.splits jvalue.splits dest: token_loop_keys)

lemma key_step_zone_docId:
  "key_step b kv = Inr b' \<Longrightarrow> fst kv \<noteq> ''doc_id'' \<Longrightarrow> docId b' = docId b"
  by (auto simp: key_step_def Let_def split: if_splits sum.splits jvalue.splits dest: token_loop_frame)

lemma key_loop_mono:
  "key_loop b kvs = Inr b' \<Longrightarrow> has_posting (index b) t x \<Longrightarrow> has_posting (index b') t x"
  by (induction kvs arbitrary: b) (auto split: sum.splits dest: key_step_mono)

lemma key_loop_keys:
  "key_loop b kvs = Inr b' \<Longrightarrow> distinct (map fst (index b)) \<Longrightarrow> distinct (map fst (index b'))"
  by (induction kvs arbitrary: b) (auto split: sum.splits dest: key_step_keys)

lemma key_loop_zone_docId:
  "key_loop b kvs = Inr b' \<Longrightarrow> ''doc_id'' \<notin> fst ` set kvs \<Longrightarrow> docId b' = docId b"
  by (induction kvs arbitrary: b) (auto split: sum.splits dest: key_step_zone_docId)

lemma key_loop_append:
  "key_loop b (xs @ ys) = (case key_loop b xs of Inl err \<Rightarrow> Inl err | Inr b1 \<Rightarrow> key_loop b1 ys)"
  by (induction xs arbitrary: b) (auto split: sum.splits)

lemma key_loop_zone_before_doc_id:
  assumes "key_loop b (pre @ (key, JStr s) # rest) = Inr b'"
    and "''doc_id'' \<notin> fst ` set pre" and "key \<noteq> ''doc_id''"
    and "raw \<in> set (py_split s)" and "normalize_token raw \<noteq> []"
  shows "has_posting (index b') (normalize_token raw) (docId b)"
proof -
  from assms(1) obtain b1 b2 where p: "key_loop b pre = Inr b1"
    and k: "key_step b1 (key, JStr s) = Inr b2" and r: "key_loop b2 rest = Inr b'"
    by (auto simp: key_loop_append split: sum.splits)
  have d: "docId b1 = docId b" using key_loop_zone_docId[OF p assms(2)] .
  from k assms(3) have "token_loop b1 (py_split s) = Inr b2"
    by (auto simp: key_step_def Let_def split: if_splits)
  from token_loop_records[OF this assms(4,5)] d
  have "has_posting (index b2) (normalize_token raw) (docId b)" by simp
  then show ?thesis using key_loop_mono[OF r] by simp
qed

lemma doc_step_key_loop:
  assumes "doc_step b doc = Inr b'"
  obtains b1 n where "key_loop (b\<lparr>docId := None, docString := []\<rparr>) doc = Inr b1"
    and "docId b1 = Some n"
    and "b' = b1\<lparr>docIndex := dict_set (docIndex b1) n (docString b1)\<rparr>"
    and "\<not> length doc \<le> 1"
proof -
  from assms have len: "\<not> length doc \<le> 1" by (auto simp: doc_step_def split: if_splits)
  with assms obtain b1 where k: "key_loop (b\<lparr>docId := None, docString := []\<rparr>) doc = Inr b1"
    by (cases "key_loop (b\<lparr>docId := None, docString := []\<rparr>) doc") (auto simp: doc_step_def)
  with assms len obtain n where "docId b1 = Some n"
    by (cases "docId b1") (auto simp: doc_step_def)
  moreover with assms len k have "b' = b1\<lparr>docIndex := dict_set (docIndex b1) n (docString b1)\<rparr>"
    by (simp add: doc_step_def)
  ultimately show ?thesis using that k len by blast
qed

lemma doc_step_mono:
  assumes "doc_step b doc = Inr b'" and "has_posting (index b) t x"
  shows "has_posting (index b') t x"
proof -
  from assms(1) obtain b1 n where k: "key_loop (b\<lparr>docId := None, docString := []\<rparr>) doc = Inr b1"
    and e: "b' = b1\<lparr>docIndex := dict_set (docIndex b1) n (docString b1)\<rparr>"
    by (rule doc_step_key_loop)
  from key_loop_mono[OF k] assms(2) have "has_posting (index b1) t x" by simp
  with e show ?thesis by simp
qed

lemma doc_step_keys:
  assumes "doc_step b doc = Inr b'" and "distinct (map fst (index b))"
  shows "distinct (map fst (index b'))"
proof -
  from assms(1) obtain b1 n where k: "key_loop (b\<lparr>docId := None, docString := []\<rparr>) doc = Inr b1"
    and e: "b' = b1\<lparr>docIndex := dict_set (docIndex b1) n (docString b1)\<rparr>"
    by (rule doc_step_key_loop)
  from key_loop_keys[OF k] assms(2) have "distinct (map fst (index b1))" by simp
  with e show ?thesis by simp
qed

lemma doc_step_zone_before_doc_id:
  assumes "doc_step b (pre @ (key, JStr s) # rest) = Inr b'"
    and "''doc_id'' \<notin> fst ` set pre" and "key \<noteq> ''doc_id''"
    and "raw \<in> set (py_split s)" and "normalize_token raw \<noteq> []"
  shows "has_posting (index b') (normalize_token raw) None"
proof -
  from assms(1) obtain b1 n where
    k: "key_loop (b\<lparr>docId := None, docString := []\<rparr>) (pre @ (key, JStr s) # rest) = Inr b1"
    and e: "b' = b1\<lparr>docIndex := dict_set (docIndex b1) n (docString b1)\<rparr>"
    by (rule doc_step_key_loop)
  from e have i: "index b' = index b1" by simp
  from key_loop_zone_before_doc_id[OF k assms(2-5)] i show ?thesis by simp
qed

lemma doc_loop_mono:
  "doc_loop b corpus = Inr b' \<Longrightarrow> has_posting (index b) t x \<Longrightarrow> has_posting (index b') t x"
  by (induction corpus arbitrary: b) (auto split: sum.splits dest: doc_step_mono)

lemma doc_loop_keys:
  "doc_loop b corpus = Inr b' \<Longrightarrow> distinct (map fst (index b)) \<Longrightarrow> distinct (map fst (index b'))"
  by (induction corpus arbitrary: b) (auto split: sum.splits dest: doc_step_keys)

lemma doc_loop_zone_before_doc_id:
  assumes "doc_loop b corpus = Inr b'" and "pre @ (key, JStr s) # rest \<in> set corpus"
    and "''doc_id'' \<notin> fst ` set pre" and "key \<noteq> ''doc_id''"
    and "raw \<in> set (py_split s)" and "normalize_token raw \<noteq> []"
  shows "has_posting (index b') (normalize_token raw) None"
  using assms(1,2)
proof (induction corpus arbitrary: b)
  case Nil
  then show ?case by simp
next
  case (Cons doc corpus)
  from Cons.prems(1) obtain b1 where s: "doc_step b doc = Inr b1" and l: "doc_loop b1 corpus = Inr b'"
    by (auto split: sum.splits)
  show ?case
  proof (cases "doc = pre @ (key, JStr s) # rest")
    case True
    with s have "doc_step b (pre @ (key, JStr s) # rest) = Inr b1" by simp
    from doc_step_zone_before_doc_id[OF this assms(3-6)]
    have "has_posting (index b1) (normalize_token raw) None" .
    then show ?thesis using doc_loop_mono[OF l] by simp
  next
    case False
    with Cons.prems(2) have "pre @ (key, JStr s) # rest \<in> set corpus" by simp
    from Cons.IH[OF l this] show ?thesis .
  qed
qed

lemma map_of_sort_key:
  assumes "distinct (map fst xs)"
  shows "map_of (sort_key fst xs) = map_of xs"
proof (rule map_of_inject_set[THEN iffD2])
  show "distinct (map fst (sort_key fst xs))" using assms
    by (metis distinct_map distinct_sort set_sort)
  show "distinct (map fst xs)" by fact
  show "set (sort_key fst xs) = set xs" by simp
qed

lemma sorted_wrt_posting_None:
  "sorted_wrt posting_lt ps \<Longrightarrow> None \<in> set ps \<Longrightarrow> ps = [None]"
  by (induction ps) (auto simp: posting_lt_def split: option.splits)

lemma py_sort_mixed:
  "None \<in> set ps \<Longrightarrow> Some n \<in> set ps \<Longrightarrow> py_sort ps = Inl TypeError"
proof -
  assume a: "None \<in> set ps" "Some n \<in> set ps"
  have "\<not> length ps \<le> 1"
  proof
    assume "length ps \<le> 1"
    then obtain x where "ps = [] \<or> ps = [x]" by (cases ps) auto
    with a show False by auto
  qed
  with a show ?thesis by (simp add: py_sort_def)
qed

lemma add_posting_mixed:
  "map_of idx token = Some e \<Longrightarrow> d \<notin> set (postings e) \<Longrightarrow> None \<in> set (postings e @ [d]) \<Longrightarrow>
   Some n \<in> set (postings e @ [d]) \<Longrightarrow> add_posting idx token d = Inl TypeError"
  using py_sort_mixed[of "postings e @ [d]" n] by (simp add: add_posting_def)

lemma generateIndex_zone_before_doc_id:
  assumes "generateIndex corpus = Inr (ix, dx)" and "pre @ (key, JStr s) # rest \<in> set corpus"
    and "''doc_id'' \<notin> fst ` set pre" and "key \<noteq> ''doc_id''"
    and "raw \<in> set (py_split s)" and "normalize_token raw \<noteq> []"
  shows "\<exists>e. map_of ix (normalize_token raw) = Some e \<and> postings e = [None]"
proof -
  from assms(1) obtain b where l: "doc_loop builder_init corpus = Inr b"
    and ix: "ix = sort_key fst (index b)"
    by (auto simp: generateIndex_def split: sum.splits)
  have dk: "distinct (map fst (index b))"
    using doc_loop_keys[OF l] by (simp add: builder_init_def)
  from doc_loop_zone_before_doc_id[OF l assms(2-6)]
  obtain e where m: "map_of (index b) (normalize_token raw) = Some e" and n: "None \<in> set (postings e)"
    by (auto simp: has_posting_def split: option.splits)
  have "index_ok ix" using assms(1) by (rule generateIndex_index_ok)
  moreover have m': "map_of ix (normalize_token raw) = Some e" using m ix map_of_sort_key[OF dk] by simp
  ultimately have "entry_ok e" by (auto simp: index_ok_def dest: map_of_SomeD)
  then have "postings e = [None]" using n sorted_wrt_posting_None by (simp add: entry_ok_def)
  with m' show ?thesis by blast
qed

text \<open>
  Claim C10. In a successful build, every token of a zone that stands before the
  \<open>doc_id\<close> field in its document is recorded with the null identifier: its postings
  list is \<open>[None]\<close>. And the postings update raises TypeError when the re-sorted list
  would hold the null together with an integer identifier.
\<close>

theorem generateIndex_zone_before_identifier:
  "(generateIndex corpus = Inr (ix, dx) \<and> pre @ (key, JStr s) # rest \<in> set corpus \<and>
    ''doc_id'' \<notin> fst ` set pre \<and> key \<noteq> ''doc_id'' \<and>
    raw \<in> set (py_split s) \<and> normalize_token raw \<noteq> [] \<longrightarrow>
      (\<exists>e. map_of ix (normalize_token raw) = Some e \<and> postings e = [None])) \<and>
   (map_of idx token = Some e' \<and> d \<notin> set (postings e') \<and>
    None \<in> set (postings e' @ [d]) \<and> Some n \<in> set (postings e' @ [d]) \<longrightarrow>
      add_posting idx token d = Inl TypeError)"
  using generateIndex_zone_before_doc_id [of corpus ix dx pre key s rest raw]
    add_posting_mixed [of idx token e' d n]
  by blast

theorem generateIndex_zone_before_identifier_witness:
  "generateIndex [[(''text'', JStr ''Fox!''), (''doc_id'', JInt 1)]] =
     Inr ([(''fox'', \<lparr>DF = 1, postings = [None]\<rparr>)], [(1, ''fox '')]) \<and>
   ''Fox!'' \<in> set (py_split ''Fox!'') \<and> normalize_token ''Fox!'' = ''fox'' \<and>
   (\<exists>e. map_of [(''fox'', \<lparr>DF = 1, postings = [None]\<rparr>)] (normalize_token ''Fox!'') = Some e \<and>
        postings e = [None]) \<and>
   add_posting [(''fox'', \<lparr>DF = 1, postings = [None]\<rparr>)] ''fox'' (Some 2) = Inl TypeError"
proof -
  let ?corpus = "[[(''text'', JStr ''Fox!''), (''doc_id'', JInt 1)]]"
  let ?ix = "[(''fox'', \<lparr>DF = 1, postings = [None]\<rparr>)]"
  have g: "generateIndex ?corpus = Inr (?ix, [(1, ''fox '')])" by code_simp
  have m: "[] @ (''text'', JStr ''Fox!'') # [(''doc_id'', JInt 1)] \<in> set ?corpus" by simp
  have p: "''Fox!'' \<in> set (py_split ''Fox!'')" by code_simp
  have t: "normalize_token ''Fox!'' = ''fox''" by code_simp
  note inst = generateIndex_zone_before_identifier
    [of ?corpus ?ix "[(1, ''fox '')]" "[]" "''text''" "''Fox!''" "[(''doc_id'', JInt 1)]" "''Fox!''"
        ?ix "''fox''" "\<lparr>DF = 1, postings = [None]\<rparr>" "Some 2" 2]
  from inst g m p t
  have a: "\<exists>e. map_of ?ix (normalize_token ''Fox!'') = Some e \<and> postings e = [None]"
    by simp
  from inst have b: "add_posting ?ix ''fox'' (Some 2) = Inl TypeError" by simp
  from g p t a b show ?thesis by blast
qed

section \<open>Properties of the tokenizer\<close>

lemma lower_char_code:
  "is_upper c \<Longrightarrow> (of_char (lower_char c) :: nat) = of_char c + 32"
  by (auto simp: lower_char_def is_upper_def Let_def)

lemma lower_char_not_upper: "\<not> is_upper (lower_char c)"
proof (cases "is_upper c")
  case True
  from lower_char_code[OF this] True show ?thesis
    by (auto simp: is_upper_def Let_def)
next
  case False
  then show ?thesis by (simp add: lower_char_def)
qed

lemma lower_char_alnum: "is_alnum c \<Longrightarrow> is_alnum (lower_char c)"
proof (cases "is_upper c")
  case True
  define n where "n = (of_char c :: nat)"
  from True have "(65 \<le> n \<and> n \<le> 90) \<or> (192 \<le> n \<and> n \<le> 214) \<or> (216 \<le> n \<and> n \<le> 222)"
    unfolding is_upper_def Let_def n_def .
  then have "(97 \<le> n + 32 \<and> n + 32 \<le> 122) \<or> (216 \<le> n + 32 \<and> n + 32 \<le> 246) \<or>
             (248 \<le> n + 32 \<and> n + 32 \<le> 255)"
    by arith
  then show ?thesis
    unfolding is_alnum_def Let_def lower_char_code[OF True] n_def by blast
next
  case False
  assume "is_alnum c"
  with False show ?thesis by (simp add: lower_char_def)
qed

lemma underscore_not_upper: "\<not> is_upper CHR ''_''"
  by (simp add: is_upper_def)

lemma lower_char_word: "is_word c \<Longrightarrow> is_word (lower_char c)"
  using lower_char_alnum[of c] underscore_not_upper
  by (auto simp: is_word_def lower_char_def)

lemma word_not_space:
  assumes "is_word c"
  shows "\<not> is_space c"
proof (cases "c = CHR ''_''")
  case True
  then show ?thesis by (simp add: is_space_def)
next
  case False
  with assms have "is_alnum c" by (simp add: is_word_def)
  then show ?thesis unfolding is_alnum_def is_space_def Let_def by arith
qed

lemma split_ws_units:
  "u \<in> set (split_ws cur s) \<Longrightarrow> \<forall>c \<in> set cur. \<not> is_space c \<Longrightarrow>
   u \<noteq> [] \<and> (\<forall>c \<in> set u. \<not> is_space c)"
proof (induction s arbitrary: cur)
  case Nil
  then show ?case by (auto split: if_splits)
next
  case (Cons a s)
  show ?case
  proof (cases "is_space a")
    case True
    with Cons.prems have "u = cur \<and> cur \<noteq> [] \<or> u \<in> set (split_ws [] s)"
      by (auto split: if_splits)
    then show ?thesis
    proof
      assume "u = cur \<and> cur \<noteq> []"
      with Cons.prems(2) show ?thesis by simp
    next
      assume "u \<in> set (split_ws [] s)"
      from Cons.IH[OF this] show ?thesis by simp
    qed
  next
    case False
    with Cons.prems have "u \<in> set (split_ws (cur @ [a]) s)" by simp
    from Cons.IH[OF this] False Cons.prems(2) show ?thesis by simp
  qed
qed

lemma py_split_units:
  "u \<in> set (py_split s) \<Longrightarrow> u \<noteq> [] \<and> (\<forall>c \<in> set u. \<not> is_space c)"
  using split_ws_units[of u "[]" s] by (simp add: py_split_def)

lemma normalize_token_chars:
  assumes "\<forall>c \<in> set u. \<not> is_space c" and "c \<in> set (normalize_token u)"
  shows "is_word c \<and> \<not> is_upper c"
proof -
  from assms(2) obtain c0 where "c0 \<in> set u" and "is_word c0 \<or> is_space c0" and "c = lower_char c0"
    by (auto simp: normalize_token_def py_lower_def)
  with assms(1) have "is_word c0" by blast
  with \<open>c = lower_char c0\<close> show ?thesis by (simp add: lower_char_word lower_char_not_upper)
qed

lemma normalize_token_ok:
  "raw \<in> set (py_split s) \<Longrightarrow> normalize_token raw \<noteq> [] \<Longrightarrow> token_ok (normalize_token raw)"
  using py_split_units[of raw s] normalize_token_chars[of raw]
  by (auto simp: token_ok_def)

lemma tokenize_ok: "t \<in> set (tokenize s) \<Longrightarrow> token_ok t"
  by (auto simp: tokenize_def normalize_token_ok)











lemma concat_split_ws:
  "concat (split_ws cur s) = cur @ filter (\<lambda>c. \<not> is_space c) s"
  by (induction s arbitrary: cur) auto















section \<open>Properties of generateIndex and buildIndex: validation\<close>

lemma key_step_empty:
  "snd kv = JNull \<or> snd kv = JStr [] \<Longrightarrow> key_step b kv = Inl (SystemExit EmptyZoneContent)"
  by (simp add: key_step_def Let_def)

lemma key_loop_empty:
  "kv \<in> set kvs \<Longrightarrow> snd kv = JNull \<or> snd kv = JStr [] \<Longrightarrow> \<exists>err. key_loop b kvs = Inl err"
proof (induction kvs arbitrary: b)
  case Nil
  then show ?case by simp
next
  case (Cons a kvs)
  show ?case
  proof (cases "key_step b a")
    case (Inl err)
    then show ?thesis by simp
  next
    case (Inr b1)
    have "a \<noteq> kv" using Inr key_step_empty[OF Cons.prems(2), of b] by auto
    with Cons.prems(1) have "kv \<in> set kvs" by auto
    from Cons.IH[OF this Cons.prems(2), of b1] Inr show ?thesis by simp
  qed
qed

lemma key_step_docIDs:
  "key_step b kv = Inr b' \<Longrightarrow> set (docIDs b) \<subseteq> set (docIDs b')"
  by (auto simp: key_step_def Let_def split: if_splits sum.splits jvalue.splits dest: token_loop_frame)

lemma key_loop_docIDs:
  "key_loop b kvs = Inr b' \<Longrightarrow> set (docIDs b) \<subseteq> set (docIDs b')"
proof (induction kvs arbitrary: b)
  case Nil
  then show ?case by simp
next
  case (Cons a kvs)
  then obtain b1 where s: "key_step b a = Inr b1" and l: "key_loop b1 kvs = Inr b'"
    by (auto split: sum.splits)
  from key_step_docIDs[OF s] Cons.IH[OF l] show ?case by blast
qed

lemma key_step_ident:
  assumes "key_step b (''doc_id'', v) = Inr b'" and "py_int v = Inr n"
  shows "n \<notin> set (docIDs b) \<and> n \<in> set (docIDs b')"
  using assms by (auto simp: key_step_def Let_def split: if_splits)

lemma key_loop_ident:
  assumes "key_loop b kvs = Inr b'" and "map_of kvs ''doc_id'' = Some v" and "py_int v = Inr n"
  shows "n \<notin> set (docIDs b) \<and> n \<in> set (docIDs b')"
  using assms(1,2)
proof (induction kvs arbitrary: b)
  case Nil
  then show ?case by simp
next
  case (Cons a kvs)
  then obtain b1 where s: "key_step b a = Inr b1" and l: "key_loop b1 kvs = Inr b'"
    by (auto split: sum.splits)
  show ?case
  proof (cases "fst a = ''doc_id''")
    case True
    with Cons.prems(2) have "a = (''doc_id'', v)" by (cases a) auto
    with s key_step_ident[OF _ assms(3)] have "n \<notin> set (docIDs b) \<and> n \<in> set (docIDs b1)"
      by simp
    with key_loop_docIDs[OF l] show ?thesis by blast
  next
    case False
    with Cons.prems(2) have "map_of kvs ''doc_id'' = Some v" by (cases a) auto
    from Cons.IH[OF l this] key_step_docIDs[OF s] show ?thesis by blast
  qed
qed

lemma doc_step_docIDs:
  assumes "doc_step b doc = Inr b'"
  shows "set (docIDs b) \<subseteq> set (docIDs b')"
proof -
  from assms obtain b1 n where k: "key_loop (b\<lparr>docId := None, docString := []\<rparr>) doc = Inr b1"
    and e: "b' = b1\<lparr>docIndex := dict_set (docIndex b1) n (docString b1)\<rparr>"
    by (rule doc_step_key_loop)
  from key_loop_docIDs[OF k] e show ?thesis by simp
qed

lemma doc_step_ident:
  assumes "doc_step b doc = Inr b'" and "doc_ident doc = Some n"
  shows "n \<notin> set (docIDs b) \<and> n \<in> set (docIDs b')"
proof -
  from assms(1) obtain b1 m where k: "key_loop (b\<lparr>docId := None, docString := []\<rparr>) doc = Inr b1"
    and e: "b' = b1\<lparr>docIndex := dict_set (docIndex b1) m (docString b1)\<rparr>"
    by (rule doc_step_key_loop)
  from assms(2) obtain v where "map_of doc ''doc_id'' = Some v" and "py_int v = Inr n"
    by (auto simp: doc_ident_def split: option.splits sum.splits)
  from key_loop_ident[OF k this] e show ?thesis by simp
qed

lemma doc_step_violation:
  assumes "doc_violation doc"
  shows "\<exists>err. doc_step b doc = Inl err"
proof (cases "doc_step b doc")
  case (Inl err)
  then show ?thesis by blast
next
  case (Inr b')
  then obtain b1 n where k: "key_loop (b\<lparr>docId := None, docString := []\<rparr>) doc = Inr b1"
    and d: "docId b1 = Some n" and len: "\<not> length doc \<le> 1"
    by (rule doc_step_key_loop)
  have "\<not> (\<exists>kv \<in> set doc. snd kv = JNull \<or> snd kv = JStr [])"
    using key_loop_empty[of _ doc "b\<lparr>docId := None, docString := []\<rparr>"] k by auto
  with assms len have "''doc_id'' \<notin> fst ` set doc" by (auto simp: doc_violation_def)
  from key_loop_zone_docId[OF k this] d show ?thesis by simp
qed

lemma doc_loop_violation:
  "doc \<in> set corpus \<Longrightarrow> doc_violation doc \<Longrightarrow> \<exists>err. doc_loop b corpus = Inl err"
proof (induction corpus arbitrary: b)
  case Nil
  then show ?case by simp
next
  case (Cons a corpus)
  show ?case
  proof (cases "doc_step b a")
    case (Inl err)
    then show ?thesis by simp
  next
    case (Inr b1)
    with doc_step_violation[of a b] Cons.prems have "doc \<in> set corpus" by auto
    from Cons.IH[OF this Cons.prems(2), of b1] Inr show ?thesis by simp
  qed
qed

lemma idents_Cons:
  "idents (doc # corpus) = (case doc_ident doc of None \<Rightarrow> [] | Some n \<Rightarrow> [n]) @ idents corpus"
  by (simp add: idents_def)

lemma doc_loop_duplicate:
  "set (idents corpus) \<inter> set (docIDs b) \<noteq> {} \<or> \<not> distinct (idents corpus) \<Longrightarrow>
   \<exists>err. doc_loop b corpus = Inl err"
proof (induction corpus arbitrary: b)
  case Nil
  then show ?case by (simp add: idents_def)
next
  case (Cons a corpus)
  show ?case
  proof (cases "doc_step b a")
    case (Inl err)
    then show ?thesis by simp
  next
    case (Inr b1)
    note sub = doc_step_docIDs[OF Inr]
    have "set (idents corpus) \<inter> set (docIDs b1) \<noteq> {} \<or> \<not> distinct (idents corpus)"
    proof (cases "doc_ident a")
      case None
      with Cons.prems sub show ?thesis by (auto simp: idents_Cons)
    next
      case (Some n)
      from doc_step_ident[OF Inr Some] have "n \<notin> set (docIDs b)" "n \<in> set (docIDs b1)" by auto
      with Cons.prems sub Some show ?thesis by (auto simp: idents_Cons)
    qed
    from Cons.IH[OF this] Inr show ?thesis by simp
  qed
qed

lemma generateIndex_violation:
  assumes "has_violation corpus"
  shows "\<exists>err. generateIndex corpus = Inl err"
proof -
  have "\<exists>err. doc_loop builder_init corpus = Inl err"
    using assms doc_loop_violation[of _ corpus builder_init] doc_loop_duplicate[of corpus builder_init]
    by (auto simp: has_violation_def)
  then show ?thesis by (auto simp: generateIndex_def)
qed

text \<open>
  Claim C8. If the corpus holds a validation violation, \<open>generateIndex\<close> ends in an
  error, and \<open>buildIndex\<close> ends with that error and the file system as it was: no
  index folder and no index file is written.
\<close>

theorem buildIndex_violation_writes_nothing:
  assumes "has_violation corpus"
  shows "\<exists>err. generateIndex corpus = Inl err \<and>
           buildIndex fs (Some corpus) indexPath = (fs, Some err)"
proof -
  from generateIndex_violation[OF assms] obtain err where "generateIndex corpus = Inl err"
    by blast
  then show ?thesis by (simp add: buildIndex_def)
qed

theorem buildIndex_violation_writes_nothing_witness:
  "has_violation
     [[(''doc_id'', JInt 7), (''text'', JStr ''first'')],
      [(''doc_id'', JStr ''7''), (''text'', JStr ''second'')]] \<and>
   (\<exists>err. generateIndex
       [[(''doc_id'', JInt 7), (''text'', JStr ''first'')],
        [(''doc_id'', JStr ''7''), (''text'', JStr ''second'')]] = Inl err \<and>
     buildIndex \<lparr>dirs = [''out''], files = []\<rparr>
       (Some [[(''doc_id'', JInt 7), (''text'', JStr ''first'')],
              [(''doc_id'', JStr ''7''), (''text'', JStr ''second'')]]) ''out'' =
       (\<lparr>dirs = [''out''], files = []\<rparr>, Some err))"
proof -
  have h: "has_violation
     [[(''doc_id'', JInt 7), (''text'', JStr ''first'')],
      [(''doc_id'', JStr ''7''), (''text'', JStr ''second'')]]"
    by code_simp
  from buildIndex_violation_writes_nothing[OF h] h show ?thesis by blast
qed

section \<open>Properties of getPhraseResults\<close>

text \<open>
  Claim C6 (the code at the failing input). The term \<open>qui\<close> of the phrase is not in the
  inverted index, so the loop over the phrase's terms ends at once and leaves \<open>docs\<close> as all
  the keys of the document index; the substring test then accepts document 1, whose text
  \<open>the quick\<close> contains \<open>qui\<close>. The phrase contributes document 1 to the result.
\<close>

theorem getPhraseResults_absent_term_contributes:
  "map_of [(''quick'', \<lparr>DF = 1, postings = [Some 1]\<rparr>),
           (''the'', \<lparr>DF = 1, postings = [Some 1]\<rparr>)] ''qui'' = None \<and>
   getPhraseResults
     [(''quick'', \<lparr>DF = 1, postings = [Some 1]\<rparr>), (''the'', \<lparr>DF = 1, postings = [Some 1]\<rparr>)]
     [(1, ''the quick'')] [''qui''] = Inr ([1], 1)"
  by code_simp

section \<open>Serializing and loading the indexes\<close>

text \<open>
  Claim C1 (the code at the failing input). The build of the one-document corpus gives the
  text \<open>the fox \<close> for document 1, with the space that follows every token. The line
  written is that text and a newline; \<open>buildIndexes\<close> cuts two characters from the end of
  the line, the newline and the space before it, and returns \<open>the fox\<close>. The inverted
  index comes back equal; the forward index does not.
\<close>

theorem roundtrip_drops_trailing_space:
  "generateIndex [[(''doc_id'', JInt 1), (''text'', JStr ''The fox'')]] =
     Inr ([(''fox'', \<lparr>DF = 1, postings = [Some 1]\<rparr>), (''the'', \<lparr>DF = 1, postings = [Some 1]\<rparr>)],
          [(1, ''the fox '')]) \<and>
   buildIndexes
     (generateIndexFiles \<lparr>dirs = [''out''], files = []\<rparr> ''out''
        ([(''fox'', \<lparr>DF = 1, postings = [Some 1]\<rparr>), (''the'', \<lparr>DF = 1, postings = [Some 1]\<rparr>)],
         [(1, ''the fox '')]))
     (''out'' @ [BACKSLASH] @ ''index'') =
     Inr ([(''fox'', \<lparr>DF = 1, postings = [Some 1]\<rparr>), (''the'', \<lparr>DF = 1, postings = [Some 1]\<rparr>)],
          [(1, ''the fox'')])"
  by code_simp

section \<open>Properties of cosineScore\<close>

text \<open>
  Claim C7 (the code at the failing input). Document 1 of the corpus has a zone of
  punctuation only, so its text is empty; the indexes are built, written and loaded, and
  a query with no phrase makes both documents candidates. The length of document 1 is
  \<open>0.0\<close>, and the division of its score by that length raises ZeroDivisionError: no
  ranked list is returned, not even for document 2. No rounding takes part in this run.
\<close>

theorem cosineScore_empty_document_raises:
  "generateIndex [[(''doc_id'', JInt 1), (''text'', JStr ''!!!'')],
                  [(''doc_id'', JInt 2), (''text'', JStr ''fox'')]] =
     Inr ([(''fox'', \<lparr>DF = 1, postings = [Some 2]\<rparr>)], [(1, []), (2, ''fox '')]) \<and>
   buildIndexes
     (generateIndexFiles \<lparr>dirs = [''out''], files = []\<rparr> ''out''
        ([(''fox'', \<lparr>DF = 1, postings = [Some 2]\<rparr>)], [(1, []), (2, ''fox '')]))
     (''out'' @ [BACKSLASH] @ ''index'') =
     Inr ([(''fox'', \<lparr>DF = 1, postings = [Some 2]\<rparr>)], [(1, []), (2, ''fox'')]) \<and>
   getPhraseResults [(''fox'', \<lparr>DF = 1, postings = [Some 2]\<rparr>)] [(1, []), (2, ''fox'')] [] =
     Inr ([1, 2], 2) \<and>
   cosineScore [(''fox'', \<lparr>DF = 1, postings = [Some 2]\<rparr>)] [(1, []), (2, ''fox'')]
     [''fox''] [1, 2] 10 = Inl ZeroDivisionError"
  by code_simp

end
